theory Spec2Isabelle
  imports Main
begin

section \<open>marked-toc: the table-of-contents generator of index.js\<close>

text \<open>
  The development embeds \<^verbatim>\<open>generate\<close>, \<^verbatim>\<open>toc\<close>, \<^verbatim>\<open>toc.raw\<close> and
  \<^verbatim>\<open>toc.insert\<close> of index.js. The libraries the file requires (marked, uslug,
  striptags, gray-matter, lodash's template, and the helpers of lib/utils) are taken as
  parameters, collected in one record of functions, so that every theorem holds for
  whatever these libraries compute.
\<close>

subsection \<open>Data\<close>

text \<open>
  A token of \<^verbatim>\<open>marked.lexer\<close>: a heading carries \<^verbatim>\<open>depth\<close> and \<^verbatim>\<open>text\<close>;
  every other block is kept with the name of its type only (a name other than
  \<^verbatim>\<open>heading\<close>). The lexer gives the property \<^verbatim>\<open>depth\<close> to heading tokens only.
\<close>

datatype token = Heading int string | Other string

text \<open>
  A heading token as the filter callback leaves it: \<^verbatim>\<open>depth\<close> rebased, and the
  properties \<^verbatim>\<open>heading\<close> and \<^verbatim>\<open>id\<close> added.
\<close>

record htoken =
  tok_depth :: int
  tok_text :: string
  tok_heading :: string
  tok_id :: string

text \<open>\<^verbatim>\<open>opts.bullet\<close>: absent, one string, or an array of strings.\<close>

datatype bullet_value = BulletAbsent | BulletString string | BulletArray "string list"

text \<open>
  The merged options \<^verbatim>\<open>opts\<close>. \<^verbatim>\<open>slugifyOptions\<close> holds its \<^verbatim>\<open>allowedChars\<close>;
  \<^verbatim>\<open>slugify\<close> is \<open>None\<close> unless the caller overrides the default slug function;
  \<^verbatim>\<open>opts.bullet\<close> and \<^verbatim>\<open>opts.data\<close> are the fields \<open>bullet_option\<close> and
  \<open>data_option\<close>.
\<close>

record options =
  firsth1 :: bool
  blacklist :: bool
  omit :: "string list"
  maxDepth :: int
  slugifyOptions :: string
  slugify :: "(string \<Rightarrow> string) option"
  bullet_option :: bullet_value
  template :: "string option"
  data_option :: "(string \<times> string) list"
  strip :: "string list option"

text \<open>The defaults of \<^verbatim>\<open>generate\<close>, with nothing given by the caller.\<close>

definition default_options :: options where
  "default_options =
     \<lparr>firsth1 = False, blacklist = True, omit = [], maxDepth = 3,
      slugifyOptions = ''-'', slugify = None, bullet_option = BulletAbsent,
      template = None, data_option = [], strip = None\<rparr>"

text \<open>
  The template context pushed to \<^verbatim>\<open>tocArray\<close>: the object
  \<^verbatim>\<open>_.extend({}, opts.data, {depth, bullet, heading, url})\<close>. The four computed keys
  override keys of the same name in \<^verbatim>\<open>opts.data\<close>, which is kept in \<open>extra\<close>.
  \<^verbatim>\<open>depth\<close> is the indentation string, not a number.
\<close>

record entry =
  extra :: "(string \<times> string) list"
  depth :: string
  bullet :: string
  heading :: string
  url :: string

text \<open>The object \<^verbatim>\<open>generate\<close> returns.\<close>

record toc_result =
  data :: "entry list"
  toc :: string

datatype js_error = RangeError

text \<open>
  The collaborators: \<^verbatim>\<open>marked.lexer\<close>; \<^verbatim>\<open>uslug\<close> with its \<^verbatim>\<open>allowedChars\<close>;
  \<^verbatim>\<open>striptags\<close>; \<^verbatim>\<open>utils.strip(str, opts)\<close> and \<^verbatim>\<open>utils.isMatch(keys, str)\<close> of
  lib/utils; \<^verbatim>\<open>_.template\<close> for a template of the caller's; \<^verbatim>\<open>matter(str)\<close>, giving
  the front-matter data and the content, and \<^verbatim>\<open>matter.stringify(content, data)\<close>.
  With them comes one constant of the JavaScript engine, the largest length a string may
  have: the language leaves it to the implementation, and building a longer string
  throws RangeError (invalid string length).
\<close>

record 'fm collab =
  lexer :: "string \<Rightarrow> token list"
  uslug :: "string \<Rightarrow> string \<Rightarrow> string"
  striptags :: "string \<Rightarrow> string"
  utils_strip :: "string \<Rightarrow> options \<Rightarrow> string"
  utils_isMatch :: "string list \<Rightarrow> string \<Rightarrow> bool"
  lodash_template :: "string \<Rightarrow> entry \<Rightarrow> string"
  matter :: "string \<Rightarrow> 'fm \<times> string"
  matter_stringify :: "string \<Rightarrow> 'fm \<Rightarrow> string"
  max_string_length :: nat

subsection \<open>generate\<close>

text \<open>\<^verbatim>\<open>tokens.shift()\<close> when \<^verbatim>\<open>opts.firsth1 === false\<close>; on an empty array it does nothing.\<close>

definition shift_first :: "options \<Rightarrow> token list \<Rightarrow> token list" where
  "shift_first opts tokens = (if firsth1 opts = False then drop 1 tokens else tokens)"

text \<open>\<^verbatim>\<open>_.any(tokens, {depth: 1})\<close>.\<close>

fun has_depth1 :: "token \<Rightarrow> bool" where
  "has_depth1 (Heading d txt) = (d = 1)"
| "has_depth1 (Other ty) = False"

definition any_h1 :: "token list \<Rightarrow> bool" where
  "any_h1 tokens = list_ex has_depth1 tokens"

text \<open>\<^verbatim>\<open>_.union\<close>: the values of the arrays in order, each kept at its first occurrence.\<close>

definition union_js :: "string list list \<Rightarrow> string list" where
  "union_js xss = rev (remdups (rev (concat xss)))"

definition omissions :: "string list" where
  "omissions = [''Table of Contents'', ''TOC'', ''TABLE OF CONTENTS'']"

text \<open>\<^verbatim>\<open>opts.slugify\<close>: the caller's function, or \<^verbatim>\<open>uslug\<close> with \<^verbatim>\<open>opts.slugifyOptions\<close>.\<close>

definition opts_slugify :: "'fm collab \<Rightarrow> options \<Rightarrow> string \<Rightarrow> string" where
  "opts_slugify c opts txt =
     (case slugify opts of
        Some f \<Rightarrow> f txt
      | None \<Rightarrow> uslug c txt (slugifyOptions opts))"

text \<open>\<^verbatim>\<open>opts.strip ? utils.strip(s, opts) : s\<close>; an array, even an empty one, is truthy.\<close>

definition strip_if :: "'fm collab \<Rightarrow> options \<Rightarrow> string \<Rightarrow> string" where
  "strip_if c opts s = (if strip opts \<noteq> None then utils_strip c s opts else s)"

text \<open>
  The callback of \<^verbatim>\<open>tokens.filter\<close>, for the flag \<open>h1\<close>: \<open>None\<close> when the token
  is filtered out, otherwise the token as the callback has changed it.
\<close>

fun filter_token :: "'fm collab \<Rightarrow> options \<Rightarrow> bool \<Rightarrow> token \<Rightarrow> htoken option" where
  "filter_token c opts h1 (Other ty) = None"
| "filter_token c opts h1 (Heading d txt) =
     (let d' = (if \<not> h1 then d - 1 else d);
          hd_text = strip_if c opts txt;
          ident = opts_slugify c opts (striptags c txt);
          omit_all = union_js [[], omit opts, omissions]
      in if utils_isMatch c omit_all hd_text then None
         else Some \<lparr>tok_depth = d', tok_text = txt, tok_heading = hd_text, tok_id = ident\<rparr>)"

definition filter_tokens :: "'fm collab \<Rightarrow> options \<Rightarrow> token list \<Rightarrow> htoken list" where
  "filter_tokens c opts tokens = List.map_filter (filter_token c opts (any_h1 tokens)) tokens"

text \<open>
  \<^verbatim>\<open>new Array(n).join(' ')\<close>, for the engine's largest string length \<open>limit\<close>. The
  constructor throws RangeError (invalid array length) unless \<open>n\<close> is an array length,
  0 to 2^32 - 1. The \<open>n\<close> empty slots joined by a space are \<open>n - 1\<close> spaces, and
  \<^verbatim>\<open>join\<close> throws RangeError (invalid string length) when that is more than the
  engine allows.
\<close>

definition array_join_spaces :: "nat \<Rightarrow> int \<Rightarrow> js_error + string" where
  "array_join_spaces limit n =
     (if n < 0 \<or> 4294967295 < n then Inl RangeError
      else if int limit < n - 1 then Inl RangeError
      else Inr (replicate (nat n - 1) CHR '' ''))"

text \<open>The remainder \<^verbatim>\<open>a % n\<close> of integers, \<open>n\<close> not zero: its sign is the dividend's.\<close>

definition js_rem :: "int \<Rightarrow> int \<Rightarrow> int" where
  "js_rem a n = sgn a * (\<bar>a\<bar> mod \<bar>n\<bar>)"

text \<open>Reading an array at a number: \<^verbatim>\<open>undefined\<close> outside the array.\<close>

definition array_get :: "string list \<Rightarrow> int \<Rightarrow> string option" where
  "array_get xs i = (if 0 \<le> i \<and> i < int (length xs) then Some (xs ! nat i) else None)"

text \<open>
  The variable \<^verbatim>\<open>bullet\<close>; \<open>None\<close> is \<^verbatim>\<open>undefined\<close>. With an empty array the
  index is \<^verbatim>\<open>NaN\<close>, and the read gives \<^verbatim>\<open>undefined\<close>.
\<close>

definition pick_bullet :: "options \<Rightarrow> int \<Rightarrow> string option" where
  "pick_bullet opts d =
     (case bullet_option opts of
        BulletArray bs \<Rightarrow>
          (if bs = [] then None else array_get bs (js_rem (d - 1) (int (length bs))))
      | BulletString s \<Rightarrow> Some s
      | BulletAbsent \<Rightarrow> None)"

text \<open>\<^verbatim>\<open>bullet ? bullet : '* '\<close>: \<^verbatim>\<open>undefined\<close> and the empty string are falsy.\<close>

definition bullet_or_default :: "string option \<Rightarrow> string" where
  "bullet_or_default b = (case b of None \<Rightarrow> ''* '' | Some s \<Rightarrow> (if s = [] then ''* '' else s))"

text \<open>
  The object \<^verbatim>\<open>data\<close> built for one heading; building the indentation may throw.
\<close>

definition build_data :: "'fm collab \<Rightarrow> options \<Rightarrow> htoken \<Rightarrow> js_error + entry" where
  "build_data c opts h =
     (let b = pick_bullet opts (tok_depth h)
      in case array_join_spaces (max_string_length c) ((tok_depth h - 1) * 2 + 1) of
           Inl e \<Rightarrow> Inl e
         | Inr ind \<Rightarrow>
             Inr \<lparr>extra = data_option opts, depth = ind, bullet = bullet_or_default b,
                  heading = tok_heading h, url = tok_id h\<rparr>)"

text \<open>
  \<^verbatim>\<open>_.template(defaultTemplate, data)\<close>: the default template interpolates the four
  values unescaped.
\<close>

definition default_line :: "entry \<Rightarrow> string" where
  "default_line e = depth e @ bullet e @ ''['' @ heading e @ ''](#'' @ url e @ '')\<newline>''"

text \<open>\<^verbatim>\<open>_.template(opts.template || defaultTemplate, data)\<close>; an empty template is falsy.\<close>

definition render_line :: "'fm collab \<Rightarrow> options \<Rightarrow> entry \<Rightarrow> string" where
  "render_line c opts e =
     (case template opts of
        None \<Rightarrow> default_line e
      | Some t \<Rightarrow> (if t = [] then default_line e else lodash_template c t e))"

text \<open>The test \<^verbatim>\<open>h.depth > opts.maxDepth\<close> that skips a heading.\<close>

definition exceeds_maxDepth :: "options \<Rightarrow> htoken \<Rightarrow> bool" where
  "exceeds_maxDepth opts h = (tok_depth h > maxDepth opts)"

text \<open>
  The \<^verbatim>\<open>forEach\<close> over the filtered headings, on the accumulators \<^verbatim>\<open>tocArray\<close>
  and \<^verbatim>\<open>toc\<close>; an exception ends it.
\<close>

fun for_each :: "'fm collab \<Rightarrow> options \<Rightarrow> htoken list \<Rightarrow> entry list \<times> string
    \<Rightarrow> js_error + entry list \<times> string" where
  "for_each c opts [] acc = Inr acc"
| "for_each c opts (h # hs) (tocArray, s) =
     (if exceeds_maxDepth opts h then for_each c opts hs (tocArray, s)
      else case build_data c opts h of
             Inl e \<Rightarrow> Inl e
           | Inr d \<Rightarrow> for_each c opts hs (tocArray @ [d], s @ render_line c opts d))"

text \<open>The body of \<^verbatim>\<open>generate\<close> from the computation of \<^verbatim>\<open>h1\<close> on.\<close>

definition generate_tokens :: "'fm collab \<Rightarrow> options \<Rightarrow> token list \<Rightarrow> js_error + toc_result" where
  "generate_tokens c opts tokens =
     (case for_each c opts (filter_tokens c opts tokens) ([], []) of
        Inl e \<Rightarrow> Inl e
      | Inr (tocArray, s) \<Rightarrow> Inr \<lparr>data = tocArray, toc = strip_if c opts s\<rparr>)"

definition generate :: "'fm collab \<Rightarrow> options \<Rightarrow> string \<Rightarrow> js_error + toc_result" where
  "generate c opts str = generate_tokens c opts (shift_first opts (lexer c str))"

definition toc_raw :: "'fm collab \<Rightarrow> options \<Rightarrow> string \<Rightarrow> js_error + toc_result" where
  "toc_raw c opts str = generate c opts str"

text \<open>The function \<^verbatim>\<open>toc(str, options)\<close>.\<close>

definition toc_str :: "'fm collab \<Rightarrow> options \<Rightarrow> string \<Rightarrow> js_error + string" where
  "toc_str c opts str = (case generate c opts str of Inl e \<Rightarrow> Inl e | Inr r \<Rightarrow> Inr (toc r))"

subsection \<open>toc.insert\<close>

definition start_marker :: string where
  "start_marker = ''<!-- toc -->''"

definition stop_marker :: string where
  "stop_marker = ''<!-- tocstop -->''"

text \<open>
  The first occurrence of \<open>pat\<close> in a string: the text before it and the text after it.
\<close>

fun find_sub :: "string \<Rightarrow> string \<Rightarrow> (string \<times> string) option" where
  "find_sub pat [] = (if pat = [] then Some ([], []) else None)"
| "find_sub pat (x # xs) =
     (if take (length pat) (x # xs) = pat then Some ([], drop (length pat) (x # xs))
      else case find_sub pat xs of
             None \<Rightarrow> None
           | Some (pre, post) \<Rightarrow> Some (x # pre, post))"

definition contains :: "string \<Rightarrow> string \<Rightarrow> bool" where
  "contains pat s = (find_sub pat s \<noteq> None)"

text \<open>
  The first match of the regular expression
  \<^verbatim>\<open>/<!-- toc -->([\s\S]+?)<!-- tocstop -->/\<close> in a string: the text before the match,
  the captured group and the text after the match. The match begins at the first start
  marker and ends with the first stop marker that begins at least one character after
  that start marker; when the first start marker has no such stop marker, no later one
  has, and there is no match.
\<close>

definition re_match :: "string \<Rightarrow> (string \<times> string \<times> string) option" where
  "re_match content =
     (case find_sub start_marker content of
        None \<Rightarrow> None
      | Some (pre, rest) \<Rightarrow>
          (case rest of
             [] \<Rightarrow> None
           | x # rest' \<Rightarrow>
               (case find_sub stop_marker rest' of
                  None \<Rightarrow> None
                | Some (mid, post) \<Rightarrow> Some (pre, x # mid, post))))"

text \<open>\<^verbatim>\<open>content.replace(re, start)\<close>; the replacement has no \<^verbatim>\<open>$\<close>.\<close>

definition remove_toc :: "string \<Rightarrow> string" where
  "remove_toc content =
     (case re_match content of
        None \<Rightarrow> content
      | Some (pre, mid, post) \<Rightarrow> pre @ start_marker @ post)"

text \<open>
  The replacement text of \<^verbatim>\<open>String.prototype.replace\<close> for a string pattern (no
  capture groups): \<^verbatim>\<open>$$\<close> is a dollar sign, \<^verbatim>\<open>$&\<close> the matched text, \<^verbatim>\<open>$`\<close>
  the text before the match and \<^verbatim>\<open>$'\<close> the text after it; every other character,
  a dollar sign before anything else included, stands for itself.
\<close>

fun get_substitution :: "string \<Rightarrow> string \<Rightarrow> string \<Rightarrow> string \<Rightarrow> string" where
  "get_substitution m pre post [] = []"
| "get_substitution m pre post [x] = [x]"
| "get_substitution m pre post (x # y # r) =
     (if x = CHR ''$'' \<and> y = CHR ''$'' then CHR ''$'' # get_substitution m pre post r
      else if x = CHR ''$'' \<and> y = CHR ''&'' then m @ get_substitution m pre post r
      else if x = CHR ''$'' \<and> y = CHR 0x60 then pre @ get_substitution m pre post r
      else if x = CHR ''$'' \<and> y = CHR 0x27 then post @ get_substitution m pre post r
      else x # get_substitution m pre post (y # r))"

text \<open>\<^verbatim>\<open>s.replace(pat, repl)\<close> for a string \<open>pat\<close>: the first occurrence only.\<close>

definition replace_first :: "string \<Rightarrow> string \<Rightarrow> string \<Rightarrow> string" where
  "replace_first pat repl s =
     (case find_sub pat s of
        None \<Rightarrow> s
      | Some (pre, post) \<Rightarrow> pre @ get_substitution pat pre post repl @ post)"

text \<open>The variable \<^verbatim>\<open>newtoc\<close> for the generated table \<open>t\<close>.\<close>

definition newtoc :: "string \<Rightarrow> string" where
  "newtoc t =
     ''\<newline>\<newline>'' @ start_marker @ ''\<newline>\<newline>'' @ t @ ''\<newline>'' @ stop_marker @ ''\<newline>''"

definition toc_insert :: "'fm collab \<Rightarrow> options \<Rightarrow> string \<Rightarrow> js_error + string" where
  "toc_insert c opts str =
     (case matter c str of
        (file_data, file_content) \<Rightarrow>
          (let content = remove_toc file_content
           in case toc_str c opts content of
                Inl e \<Rightarrow> Inl e
              | Inr t \<Rightarrow>
                  (let res = matter_stringify c content file_data
                   in Inr (replace_first start_marker (newtoc t) res))))"

subsection \<open>What the statements need\<close>

text \<open>
  The tokens for which the callback returns \<^verbatim>\<open>true\<close>, whatever the flag: the headings
  whose \<^verbatim>\<open>heading\<close> text \<^verbatim>\<open>utils.isMatch\<close> does not match. \<open>original_depth\<close> is
  the depth the lexer gave.
\<close>

fun surviving :: "'fm collab \<Rightarrow> options \<Rightarrow> token \<Rightarrow> bool" where
  "surviving c opts (Other ty) = False"
| "surviving c opts (Heading d txt) =
     (\<not> utils_isMatch c (union_js [[], omit opts, omissions]) (strip_if c opts txt))"

fun original_depth :: "token \<Rightarrow> int" where
  "original_depth (Heading d txt) = d"
| "original_depth (Other ty) = 0"

text \<open>The depths of the heading tokens lie between two bounds.\<close>

fun depth_in :: "int \<Rightarrow> int \<Rightarrow> token \<Rightarrow> bool" where
  "depth_in lo hi (Heading d txt) = (lo \<le> d \<and> d \<le> hi)"
| "depth_in lo hi (Other ty) = True"

fun depth_at_least :: "int \<Rightarrow> token \<Rightarrow> bool" where
  "depth_at_least lo (Heading d txt) = (lo \<le> d)"
| "depth_at_least lo (Other ty) = True"

text \<open>
  The largest rebased depth \<open>d\<close> whose indentation can be built: the array length
  \<open>(d - 1) * 2 + 1\<close> is at most 2^32 - 1, and the string length \<open>(d - 1) * 2\<close> at
  most the engine's limit.
\<close>

definition max_indent_depth :: "'fm collab \<Rightarrow> int" where
  "max_indent_depth c = min 2147483648 (int (max_string_length c) div 2 + 1)"

text \<open>
  Modelled from the spec: \<^verbatim>\<open>utils.isMatch\<close> is defined in lib/utils.js, which is not
  among the sources. The specification asks of the matcher that any string in the omit
  set matches the heading text; matchers that accept more (patterns) are allowed.
\<close>

definition matches_own_entries :: "(string list \<Rightarrow> string \<Rightarrow> bool) \<Rightarrow> bool" where
  "matches_own_entries m \<longleftrightarrow> (\<forall>keys s. s \<in> set keys \<longrightarrow> m keys s)"

text \<open>
  An entry comes from a token: the token is a heading, and the entry's \<^verbatim>\<open>heading\<close>
  and \<^verbatim>\<open>url\<close> are the ones the filter callback computes from the token's text.
\<close>

fun from_token :: "'fm collab \<Rightarrow> options \<Rightarrow> entry \<Rightarrow> token \<Rightarrow> bool" where
  "from_token c opts e (Other ty) = False"
| "from_token c opts e (Heading d txt) =
     (heading e = strip_if c opts txt \<and> url e = opts_slugify c opts (striptags c txt))"

text \<open>
  The example document of the specification, and what the collaborators compute on it:
  \<^verbatim>\<open>marked.lexer\<close> gives four heading tokens; \<^verbatim>\<open>striptags\<close> leaves the texts
  \<^verbatim>\<open>A\<close>, \<^verbatim>\<open>B\<close>, \<^verbatim>\<open>C\<close> as they are; \<^verbatim>\<open>utils.isMatch\<close> does not match them against
  the built-in omissions; \<^verbatim>\<open>uslug\<close> puts them in lower case.
\<close>

definition example_doc :: string where
  "example_doc = ''# Title\<newline>\<newline>## A\<newline>\<newline>### B\<newline>\<newline>## C\<newline>''"

definition example_tokens :: "token list" where
  "example_tokens = [Heading 1 ''Title'', Heading 2 ''A'', Heading 3 ''B'', Heading 2 ''C'']"

definition behaves_on_example :: "'fm collab \<Rightarrow> bool" where
  "behaves_on_example c \<longleftrightarrow>
     lexer c example_doc = example_tokens \<and>
     list_all (\<lambda>t. striptags c t = t \<and> \<not> utils_isMatch c omissions t) [''A'', ''B'', ''C''] \<and>
     uslug c ''A'' ''-'' = ''a'' \<and> uslug c ''B'' ''-'' = ''b'' \<and> uslug c ''C'' ''-'' = ''c''"

subsection \<open>A concrete instance of the collaborators\<close>

text \<open>
  For evaluating the functions at concrete documents: a tokenizer for documents made of
  one-line blocks (a line of one to six \<^verbatim>\<open>#\<close> and a space is a heading, any other
  non-empty line another block), a slug function for ASCII text, a tag stripper, an
  exact matcher, a template engine for \<^verbatim>\<open><%= key %>\<close>, and a front-matter codec that
  keeps the text between the \<^verbatim>\<open>---\<close> lines as the data. The string limit is
  2^29 - 24.
\<close>

fun split_lines :: "string \<Rightarrow> string list" where
  "split_lines [] = [[]]"
| "split_lines (x # xs) =
     (if x = CHR 0x0A then [] # split_lines xs
      else case split_lines xs of
             [] \<Rightarrow> [[x]]
           | l # ls \<Rightarrow> (x # l) # ls)"

definition line_token :: "string \<Rightarrow> token" where
  "line_token l =
     (let n = length (takeWhile (\<lambda>x. x = CHR ''#'') l);
          r = dropWhile (\<lambda>x. x = CHR ''#'') l
      in if 1 \<le> n \<and> n \<le> 6 \<and> take 1 r = '' ''
         then Heading (int n) (dropWhile (\<lambda>x. x = CHR '' '') r)
         else if take 1 l = ''<'' then Other ''html'' else Other ''paragraph'')"

definition line_lexer :: "string \<Rightarrow> token list" where
  "line_lexer s = map line_token (filter (\<lambda>l. l \<noteq> []) (split_lines s))"

definition lower_char :: "char \<Rightarrow> char" where
  "lower_char x =
     (case map_of (zip ''ABCDEFGHIJKLMNOPQRSTUVWXYZ'' ''abcdefghijklmnopqrstuvwxyz'') x of
        None \<Rightarrow> x
      | Some y \<Rightarrow> y)"

definition ascii_slug :: "string \<Rightarrow> string \<Rightarrow> string" where
  "ascii_slug txt allowed =
     filter (\<lambda>x. x \<in> set ''abcdefghijklmnopqrstuvwxyz0123456789_'' \<or> x \<in> set allowed)
       (map (\<lambda>x. if x = CHR '' '' then CHR ''-'' else lower_char x) txt)"

fun drop_tags :: "bool \<Rightarrow> string \<Rightarrow> string" where
  "drop_tags inside [] = []"
| "drop_tags inside (x # xs) =
     (if inside then drop_tags (x \<noteq> CHR ''>'') xs
      else if x = CHR ''<'' then drop_tags True xs
      else x # drop_tags False xs)"

definition exact_match :: "string list \<Rightarrow> string \<Rightarrow> bool" where
  "exact_match keys s = List.member keys s"

definition entry_lookup :: "entry \<Rightarrow> string \<Rightarrow> string" where
  "entry_lookup e k =
     (if k = ''depth'' then depth e
      else if k = ''bullet'' then bullet e
      else if k = ''heading'' then heading e
      else if k = ''url'' then url e
      else case map_of (extra e) k of None \<Rightarrow> [] | Some v \<Rightarrow> v)"

text \<open>
  Outside a tag (\<open>None\<close>) the text is copied; inside \<^verbatim>\<open><%= ... %>\<close> the key is
  collected, and its value is written at the closing \<^verbatim>\<open>%>\<close>.
\<close>

fun interpolate :: "entry \<Rightarrow> string option \<Rightarrow> string \<Rightarrow> string" where
  "interpolate e None (x # y # z # r) =
     (if [x, y, z] = ''<%='' then interpolate e (Some []) r
      else x # interpolate e None (y # z # r))"
| "interpolate e None r = r"
| "interpolate e (Some k) (x # y # r) =
     (if [x, y] = ''%>'' then entry_lookup e (filter (\<lambda>x. x \<noteq> CHR '' '') k) @ interpolate e None r
      else interpolate e (Some (k @ [x])) (y # r))"
| "interpolate e (Some k) r = []"

definition fence_matter :: "string \<Rightarrow> string option \<times> string" where
  "fence_matter s =
     (if take 4 s = ''---\<newline>'' then
        (case find_sub ''\<newline>---\<newline>'' (drop 3 s) of
           None \<Rightarrow> (None, s)
         | Some (fm, body) \<Rightarrow> (Some fm, body))
      else (None, s))"

definition fence_stringify :: "string \<Rightarrow> string option \<Rightarrow> string" where
  "fence_stringify content fm =
     (case fm of
        None \<Rightarrow> content
      | Some y \<Rightarrow> ''---'' @ y @ ''\<newline>---\<newline>'' @ content)"

definition plain :: "string option collab" where
  "plain =
     \<lparr>lexer = line_lexer, uslug = ascii_slug, striptags = drop_tags False,
      utils_strip = (\<lambda>s opts. drop_tags False s), utils_isMatch = exact_match,
      lodash_template = (\<lambda>t e. interpolate e None t),
      matter = fence_matter, matter_stringify = fence_stringify,
      max_string_length = 536870888\<rparr>"

section \<open>Properties\<close>

subsection \<open>Searching a string\<close>

lemma find_sub_Some: "find_sub pat s = Some (a, b) \<Longrightarrow> s = a @ pat @ b"
proof (induction s arbitrary: a b)
  case Nil
  then show ?case by (simp split: if_splits)
next
  case (Cons x xs)
  show ?case
  proof (cases "take (length pat) (x # xs) = pat")
    case True
    with Cons.prems have "a = []" "b = drop (length pat) (x # xs)" by simp_all
    with True show ?thesis by (metis append_Nil append_take_drop_id)
  next
    case False
    with Cons.prems obtain a' where "find_sub pat xs = Some (a', b)" "a = x # a'"
      by (auto split: option.splits)
    with Cons.IH show ?thesis by simp
  qed
qed

lemma find_sub_None: "find_sub pat s = None \<Longrightarrow> s \<noteq> a @ pat @ b"
proof (induction s arbitrary: a)
  case Nil
  then show ?case by (auto split: if_splits)
next
  case (Cons x xs)
  from Cons.prems have nt: "take (length pat) (x # xs) \<noteq> pat" and rec: "find_sub pat xs = None"
    by (auto split: if_splits option.splits)
  show ?case
  proof (cases a)
    case Nil
    with nt show ?thesis by auto
  next
    case (Cons y a')
    with Cons.IH [OF rec, of a'] show ?thesis by auto
  qed
qed

lemma contains_iff: "contains pat s \<longleftrightarrow> (\<exists>a b. s = a @ pat @ b)"
  unfolding contains_def
  using find_sub_Some find_sub_None by (metis option.exhaust surj_pair)

subsection \<open>The filter callback\<close>

lemma filter_token_None: "filter_token c opts b t = None \<longleftrightarrow> \<not> surviving c opts t"
  by (cases t) (simp_all add: Let_def)

lemma filter_token_depth:
  "filter_token c opts b t = Some h \<Longrightarrow>
   tok_depth h = (if b then original_depth t else original_depth t - 1)"
  by (cases t) (auto simp: Let_def split: if_splits)

lemma map_filter_depths:
  "map tok_depth (List.map_filter (filter_token c opts b) ts) =
   map (\<lambda>t. if b then original_depth t else original_depth t - 1) (filter (surviving c opts) ts)"
proof (induction ts)
  case Nil
  show ?case by simp
next
  case (Cons t ts)
  show ?case
  proof (cases "filter_token c opts b t")
    case None
    then have "\<not> surviving c opts t" by (simp add: filter_token_None)
    with None Cons.IH show ?thesis by simp
  next
    case (Some h)
    then have "surviving c opts t"
      using filter_token_None [of c opts b t] by auto
    with Some Cons.IH filter_token_depth [OF Some] show ?thesis by simp
  qed
qed

lemma not_any_h1_iff: "\<not> any_h1 ts \<longleftrightarrow> list_all (\<lambda>t. \<not> has_depth1 t) ts"
  unfolding any_h1_def by (induction ts) simp_all

lemma filter_token_bounds:
  assumes "filter_token c opts b t = Some h" and "depth_in 1 hi t" and "\<not> b \<longrightarrow> \<not> has_depth1 t"
  shows "1 \<le> tok_depth h \<and> tok_depth h \<le> hi"
  using assms by (cases t) (auto simp: Let_def split: if_splits)

lemma filter_token_lower:
  assumes "filter_token c opts b t = Some h" and "depth_at_least 1 t" and "\<not> b \<longrightarrow> \<not> has_depth1 t"
  shows "1 \<le> tok_depth h"
  using assms by (cases t) (auto simp: Let_def split: if_splits)

lemma set_map_filter: "set (List.map_filter f xs) = {y. \<exists>x \<in> set xs. f x = Some y}"
  by (induction xs) (auto split: option.splits)

lemma filter_tokens_bounds:
  assumes "list_all (depth_in 1 hi) tokens" and "h \<in> set (filter_tokens c opts tokens)"
  shows "1 \<le> tok_depth h \<and> tok_depth h \<le> hi"
proof -
  from assms(2) obtain t where t: "t \<in> set tokens" "filter_token c opts (any_h1 tokens) t = Some h"
    unfolding filter_tokens_def set_map_filter by blast
  from assms(1) t(1) have "depth_in 1 hi t" by (simp add: list_all_iff)
  moreover have "\<not> any_h1 tokens \<longrightarrow> \<not> has_depth1 t"
    using t(1) by (auto simp: not_any_h1_iff list_all_iff)
  ultimately show ?thesis using filter_token_bounds [OF t(2)] by blast
qed

lemma filter_tokens_lower:
  assumes "list_all (depth_at_least 1) tokens" and "h \<in> set (filter_tokens c opts tokens)"
  shows "1 \<le> tok_depth h"
proof -
  from assms(2) obtain t where t: "t \<in> set tokens" "filter_token c opts (any_h1 tokens) t = Some h"
    unfolding filter_tokens_def set_map_filter by blast
  from assms(1) t(1) have "depth_at_least 1 t" by (simp add: list_all_iff)
  moreover have "\<not> any_h1 tokens \<longrightarrow> \<not> has_depth1 t"
    using t(1) by (auto simp: not_any_h1_iff list_all_iff)
  ultimately show ?thesis using filter_token_lower [OF t(2)] by blast
qed

lemma no_h1_depths:
  assumes "list_all (depth_at_least 1) tokens" and "\<not> any_h1 tokens"
  shows "list_all (depth_at_least 2) tokens"
proof -
  have "depth_at_least 2 t" if "depth_at_least 1 t" "\<not> has_depth1 t" for t
    using that by (cases t) auto
  with assms show ?thesis by (auto simp: not_any_h1_iff list_all_iff)
qed

lemma list_all_shift: "list_all P tokens \<Longrightarrow> list_all P (shift_first opts tokens)"
  unfolding shift_first_def by (auto simp: list_all_iff dest: in_set_dropD)
subsection \<open>Building one record\<close>

lemma max_indent_depth_fits:
  assumes "1 \<le> d" and "d \<le> max_indent_depth c"
  shows "\<not> ((d - 1) * 2 + 1 < 0 \<or> 4294967295 < (d - 1) * 2 + 1)"
    and "\<not> int (max_string_length c) < (d - 1) * 2 + 1 - 1"
proof -
  from assms(2) have a: "d \<le> 2147483648" and b: "d \<le> int (max_string_length c) div 2 + 1"
    unfolding max_indent_depth_def by simp_all
  from assms(1) a show "\<not> ((d - 1) * 2 + 1 < 0 \<or> 4294967295 < (d - 1) * 2 + 1)" by simp
  from b show "\<not> int (max_string_length c) < (d - 1) * 2 + 1 - 1" by presburger
qed

lemma build_data_ok:
  assumes "1 \<le> tok_depth h" and "tok_depth h \<le> max_indent_depth c"
  shows "build_data c opts h =
     Inr \<lparr>extra = data_option opts, depth = replicate (nat ((tok_depth h - 1) * 2)) CHR '' '',
          bullet = bullet_or_default (pick_bullet opts (tok_depth h)),
          heading = tok_heading h, url = tok_id h\<rparr>"
proof -
  have "nat ((tok_depth h - 1) * 2 + 1) - 1 = nat ((tok_depth h - 1) * 2)"
    using assms(1) by linarith
  with max_indent_depth_fits [OF assms]
  have "array_join_spaces (max_string_length c) ((tok_depth h - 1) * 2 + 1) =
      Inr (replicate (nat ((tok_depth h - 1) * 2)) CHR '' '')"
    unfolding array_join_spaces_def by (simp only: if_False)
  then show ?thesis
    unfolding build_data_def Let_def by (simp only: sum.case)
qed


subsection \<open>The loop over the headings\<close>

lemma for_each_result:
  "for_each c opts hs (arr, s) = Inr (arr', s') \<Longrightarrow>
   \<exists>ds. map Inr ds = map (build_data c opts) (filter (\<lambda>h. \<not> exceeds_maxDepth opts h) hs) \<and>
        arr' = arr @ ds \<and> s' = s @ concat (map (render_line c opts) ds)"
proof (induction hs arbitrary: arr s)
  case Nil
  then show ?case by simp
next
  case (Cons h hs)
  show ?case
  proof (cases "exceeds_maxDepth opts h")
    case True
    with Cons.prems have "for_each c opts hs (arr, s) = Inr (arr', s')" by simp
    from Cons.IH [OF this] True show ?thesis by simp
  next
    case False
    with Cons.prems obtain d where d: "build_data c opts h = Inr d"
      and rest: "for_each c opts hs (arr @ [d], s @ render_line c opts d) = Inr (arr', s')"
      by (auto split: sum.splits)
    from Cons.IH [OF rest] obtain ds where ds:
      "map Inr ds = map (build_data c opts) (filter (\<lambda>h. \<not> exceeds_maxDepth opts h) hs)"
      "arr' = (arr @ [d]) @ ds" "s' = (s @ render_line c opts d) @ concat (map (render_line c opts) ds)"
      by blast
    have "map Inr (d # ds) = map (build_data c opts) (filter (\<lambda>h. \<not> exceeds_maxDepth opts h) (h # hs))"
      using False d ds(1) by simp
    moreover have "arr' = arr @ (d # ds)" using ds(2) by simp
    moreover have "s' = s @ concat (map (render_line c opts) (d # ds))" using ds(3) by simp
    ultimately show ?thesis by blast
  qed
qed

lemma for_each_succeeds:
  "(\<And>h. h \<in> set hs \<Longrightarrow> 1 \<le> tok_depth h \<and> tok_depth h \<le> max_indent_depth c) \<Longrightarrow>
   \<exists>r. for_each c opts hs acc = Inr r"
proof (induction hs arbitrary: acc)
  case Nil
  then show ?case by simp
next
  case (Cons h hs)
  obtain arr s where acc: "acc = (arr, s)" by (cases acc)
  have h: "1 \<le> tok_depth h \<and> tok_depth h \<le> max_indent_depth c" using Cons.prems by simp
  have tl: "\<And>acc'. \<exists>r. for_each c opts hs acc' = Inr r" using Cons.IH Cons.prems by simp
  show ?case
  proof (cases "exceeds_maxDepth opts h")
    case True
    with tl [of "(arr, s)"] acc show ?thesis by simp
  next
    case False
    from h obtain d where d: "build_data c opts h = Inr d" using build_data_ok by blast
    with False tl [of "(arr @ [d], s @ render_line c opts d)"] acc show ?thesis by simp
  qed
qed

lemma generate_tokens_result:
  assumes "generate_tokens c opts tokens = Inr r"
  shows "map Inr (data r) =
           map (build_data c opts)
             (filter (\<lambda>h. \<not> exceeds_maxDepth opts h) (filter_tokens c opts tokens)) \<and>
         toc r = strip_if c opts (concat (map (render_line c opts) (data r)))"
proof -
  from assms obtain arr s where fe: "for_each c opts (filter_tokens c opts tokens) ([], []) = Inr (arr, s)"
    and r: "r = \<lparr>data = arr, toc = strip_if c opts s\<rparr>"
    unfolding generate_tokens_def by (auto split: sum.splits)
  from for_each_result [OF fe] r show ?thesis by auto
qed

lemma generate_tokens_succeeds:
  assumes "list_all (depth_in 1 (max_indent_depth c)) tokens"
  shows "\<exists>r. generate_tokens c opts tokens = Inr r"
proof -
  have "\<exists>r. for_each c opts (filter_tokens c opts tokens) ([], []) = Inr r"
    by (rule for_each_succeeds) (rule filter_tokens_bounds [OF assms])
  then show ?thesis unfolding generate_tokens_def by (auto split: sum.splits)
qed

lemma data_from_htoken:
  assumes "generate_tokens c opts tokens = Inr r" and "e \<in> set (data r)"
  shows "\<exists>h \<in> set (filter_tokens c opts tokens).
           \<not> exceeds_maxDepth opts h \<and> build_data c opts h = Inr e"
proof -
  from assms(2) have "Inr e \<in> set (map Inr (data r) :: (js_error + entry) list)" by simp
  then have "Inr e \<in> set (map (build_data c opts)
      (filter (\<lambda>h. \<not> exceeds_maxDepth opts h) (filter_tokens c opts tokens)))"
    using generate_tokens_result [OF assms(1)] by simp
  then show ?thesis by auto
qed

lemma build_data_fields:
  "build_data c opts h = Inr e \<Longrightarrow>
   heading e = tok_heading h \<and> url e = tok_id h \<and>
   bullet e = bullet_or_default (pick_bullet opts (tok_depth h)) \<and> extra e = data_option opts"
  unfolding build_data_def Let_def by (auto split: sum.splits)

lemma filter_token_fields:
  "filter_token c opts b t = Some h \<Longrightarrow>
   \<exists>d txt. t = Heading d txt \<and> tok_text h = txt \<and> tok_heading h = strip_if c opts txt \<and>
     tok_id h = opts_slugify c opts (striptags c txt) \<and>
     \<not> utils_isMatch c (union_js [[], omit opts, omissions]) (tok_heading h)"
  by (cases t) (auto simp: Let_def split: if_splits)

lemma set_union_js: "set (union_js xss) = set (concat xss)"
  unfolding union_js_def by simp

subsection \<open>The example document\<close>

lemma line_lexer_example: "line_lexer example_doc = example_tokens"
  by (simp add: line_lexer_def example_doc_def example_tokens_def line_token_def)

lemma plain_lexer_example: "lexer plain example_doc = example_tokens"
  by (simp add: plain_def line_lexer_example)

lemma plain_string_limit: "2 \<le> max_string_length plain"
  by (simp add: plain_def)

lemma plain_max_indent: "max_indent_depth plain = 268435445"
  by (simp add: max_indent_depth_def plain_def)

lemma spaces_2: "replicate 2 CHR '' '' = ''  ''"
  by (simp add: numeral_2_eq_2)


lemma plain_behaves: "behaves_on_example plain"
  unfolding behaves_on_example_def
  by (simp add: plain_lexer_example)
     (simp add: plain_def omissions_def exact_match_def ascii_slug_def lower_char_def)

lemma example_filtered:
  assumes "behaves_on_example c" and opts: "opts = default_options\<lparr>maxDepth := m\<rparr>"
  shows "filter_tokens c opts (shift_first opts (lexer c example_doc)) =
     [\<lparr>tok_depth = 1, tok_text = ''A'', tok_heading = ''A'', tok_id = ''a''\<rparr>,
      \<lparr>tok_depth = 2, tok_text = ''B'', tok_heading = ''B'', tok_id = ''b''\<rparr>,
      \<lparr>tok_depth = 1, tok_text = ''C'', tok_heading = ''C'', tok_id = ''c''\<rparr>]"
proof -
  from assms(1) have lx: "lexer c example_doc = example_tokens"
    and st: "striptags c ''A'' = ''A''" "striptags c ''B'' = ''B''" "striptags c ''C'' = ''C''"
    and om: "\<not> utils_isMatch c omissions ''A''" "\<not> utils_isMatch c omissions ''B''"
      "\<not> utils_isMatch c omissions ''C''"
    and sl: "uslug c ''A'' ''-'' = ''a''" "uslug c ''B'' ''-'' = ''b''" "uslug c ''C'' ''-'' = ''c''"
    unfolding behaves_on_example_def by simp_all
  have un: "union_js [[], omit opts, omissions] = omissions"
    by (simp add: union_js_def opts default_options_def omissions_def)
  have sh: "shift_first opts example_tokens =
      [Heading 2 ''A'', Heading 3 ''B'', Heading 2 ''C'']"
    by (simp add: shift_first_def opts default_options_def example_tokens_def)
  have h1: "\<not> any_h1 [Heading 2 ''A'', Heading 3 ''B'', Heading 2 ''C'']"
    by (simp add: any_h1_def)
  have sg: "opts_slugify c opts t = uslug c t ''-''" for t
    by (simp add: opts_slugify_def opts default_options_def)
  have sp: "strip_if c opts t = t" for t
    by (simp add: strip_if_def opts default_options_def)
  show ?thesis
    unfolding lx sh filter_tokens_def
    by (simp add: h1 un sg sp st om sl Let_def)
qed

lemma default_build:
  assumes "opts = default_options\<lparr>maxDepth := m\<rparr>"
    and "tok_depth h = 1 \<or> tok_depth h = 2 \<and> 2 \<le> max_string_length c"
  shows "build_data c opts h =
     Inr \<lparr>extra = [], depth = (if tok_depth h = 1 then [] else ''  ''), bullet = ''* '',
          heading = tok_heading h, url = tok_id h\<rparr>"
proof -
  have b: "bullet_or_default (pick_bullet opts d) = ''* ''" for d
    by (simp add: assms(1) default_options_def pick_bullet_def bullet_or_default_def)
  from assms(2) have r: "1 \<le> tok_depth h" "tok_depth h \<le> max_indent_depth c"
    by (auto simp: max_indent_depth_def)
  from assms(2) have ind: "replicate (nat ((tok_depth h - 1) * 2)) CHR '' '' =
      (if tok_depth h = 1 then [] else ''  '')"
    by (auto simp: eval_nat_numeral)
  show ?thesis
    unfolding build_data_ok [OF r] b ind by (simp add: assms(1) default_options_def)
qed

lemma default_render:
  assumes "opts = default_options\<lparr>maxDepth := m\<rparr>"
  shows "render_line c opts e = depth e @ bullet e @ ''['' @ heading e @ ''](#'' @ url e @ '')\<newline>''"
  by (simp add: render_line_def assms default_options_def default_line_def)

lemma default_strip:
  assumes "opts = default_options\<lparr>maxDepth := m\<rparr>"
  shows "strip_if c opts s = s"
  by (simp add: strip_if_def assms default_options_def)

lemma example_generate_3:
  assumes "behaves_on_example c" and "2 \<le> max_string_length c"
  shows "generate c default_options example_doc =
     Inr \<lparr>data =
           [\<lparr>extra = [], depth = [], bullet = ''* '', heading = ''A'', url = ''a''\<rparr>,
            \<lparr>extra = [], depth = ''  '', bullet = ''* '', heading = ''B'', url = ''b''\<rparr>,
            \<lparr>extra = [], depth = [], bullet = ''* '', heading = ''C'', url = ''c''\<rparr>],
          toc = ''* [A](#a)\<newline>  * [B](#b)\<newline>* [C](#c)\<newline>''\<rparr>"
proof -
  have o: "default_options = default_options\<lparr>maxDepth := 3\<rparr>"
    by (simp add: default_options_def)
  have m: "maxDepth default_options = 3" by (simp add: default_options_def)
  show ?thesis
    unfolding generate_def generate_tokens_def example_filtered [OF assms(1) o]
    by (simp add: exceeds_maxDepth_def m assms(2) default_build [OF o] default_render [OF o]
        default_strip [OF o])
qed

lemma example_generate_1:
  assumes "behaves_on_example c"
  shows "generate c (default_options\<lparr>maxDepth := 1\<rparr>) example_doc =
     Inr \<lparr>data =
           [\<lparr>extra = [], depth = [], bullet = ''* '', heading = ''A'', url = ''a''\<rparr>,
            \<lparr>extra = [], depth = [], bullet = ''* '', heading = ''C'', url = ''c''\<rparr>],
          toc = ''* [A](#a)\<newline>* [C](#c)\<newline>''\<rparr>"
proof -
  have o: "default_options\<lparr>maxDepth := 1\<rparr> = default_options\<lparr>maxDepth := 1\<rparr>" ..
  show ?thesis
    unfolding generate_def generate_tokens_def example_filtered [OF assms o]
    by (simp add: exceeds_maxDepth_def default_build [OF o] default_render [OF o]
        default_strip [OF o])
qed

subsection \<open>The marker region\<close>

lemma find_sub_first:
  "find_sub pat s = Some (pre, post) \<Longrightarrow> s = a @ pat @ b \<Longrightarrow> length pre \<le> length a"
proof (induction s arbitrary: pre a)
  case Nil
  then show ?case by (auto split: if_splits)
next
  case (Cons x xs)
  show ?case
  proof (cases "take (length pat) (x # xs) = pat")
    case True
    with Cons.prems(1) show ?thesis by simp
  next
    case False
    with Cons.prems(1) obtain pre' where p: "find_sub pat xs = Some (pre', post)" "pre = x # pre'"
      by (auto split: option.splits)
    show ?thesis
    proof (cases a)
      case Nil
      with Cons.prems(2) False show ?thesis by auto
    next
      case (Cons y a')
      with Cons.prems(2) have "xs = a' @ pat @ b" by simp
      from Cons.IH [OF p(1) this] p(2) Cons show ?thesis by simp
    qed
  qed
qed

lemma find_sub_exists: "s = a @ pat @ b \<Longrightarrow> \<exists>pre post. find_sub pat s = Some (pre, post)"
  using find_sub_None [of pat s a b] by (cases "find_sub pat s") auto

lemma re_match_Some:
  assumes "re_match content = Some (pre, mid, post)"
  shows "mid \<noteq> [] \<and> content = pre @ start_marker @ mid @ stop_marker @ post"
proof -
  from assms obtain rest x rest' mid' where
    f1: "find_sub start_marker content = Some (pre, rest)" and r: "rest = x # rest'"
    and f2: "find_sub stop_marker rest' = Some (mid', post)" and m: "mid = x # mid'"
    unfolding re_match_def by (auto split: option.splits list.splits)
  from find_sub_Some [OF f1] find_sub_Some [OF f2] r m show ?thesis by simp
qed

lemma re_match_exists:
  assumes "content = a @ start_marker @ m @ stop_marker @ b" and "m \<noteq> []"
  shows "re_match content \<noteq> None"
proof -
  from assms(1) have "content = a @ start_marker @ (m @ stop_marker @ b)" by simp
  from find_sub_exists [OF this] obtain pre rest where
    f1: "find_sub start_marker content = Some (pre, rest)" by blast
  from find_sub_first [OF f1 \<open>content = a @ start_marker @ (m @ stop_marker @ b)\<close>]
  have le: "length pre \<le> length a" .
  from find_sub_Some [OF f1] have c: "content = pre @ start_marker @ rest" .
  let ?k = "length pre + length start_marker + 1"
  let ?u = "a @ start_marker @ m"
  have k: "?k \<le> length ?u" using le assms(2) by (cases m) simp_all
  have "drop ?k content = drop ?k ?u @ stop_marker @ b"
    using k by (simp add: assms(1))
  moreover have "drop ?k content = drop 1 rest" by (subst c) simp
  ultimately have d: "drop 1 rest = drop ?k ?u @ stop_marker @ b" by simp
  have "length rest \<noteq> 0"
  proof
    assume "length rest = 0"
    with d show False by (simp add: stop_marker_def)
  qed
  then obtain x rest' where r: "rest = x # rest'" by (cases rest) auto
  with d have "rest' = drop ?k ?u @ stop_marker @ b" by simp
  from find_sub_exists [OF this] obtain mid post where
    "find_sub stop_marker rest' = Some (mid, post)" by blast
  with f1 r show ?thesis unfolding re_match_def by simp
qed

lemma re_match_None_iff:
  "re_match content = None \<longleftrightarrow>
   \<not> (\<exists>a m b. m \<noteq> [] \<and> content = a @ start_marker @ m @ stop_marker @ b)"
proof
  assume "re_match content = None"
  then show "\<not> (\<exists>a m b. m \<noteq> [] \<and> content = a @ start_marker @ m @ stop_marker @ b)"
    using re_match_exists by blast
next
  assume n: "\<not> (\<exists>a m b. m \<noteq> [] \<and> content = a @ start_marker @ m @ stop_marker @ b)"
  show "re_match content = None"
  proof (cases "re_match content")
    case None
    then show ?thesis .
  next
    case (Some p)
    obtain pre mid post where "p = (pre, mid, post)" by (cases p) auto
    with Some re_match_Some n show ?thesis by blast
  qed
qed

text \<open>The match is the leftmost one, and its group the shortest for that start.\<close>

lemma re_match_leftmost_lazy:
  assumes "re_match content = Some (pre, mid, post)"
    and "content = a @ start_marker @ m @ stop_marker @ b" and "m \<noteq> []"
  shows "length pre \<le> length a \<and> (length pre = length a \<longrightarrow> length mid \<le> length m)"
proof -
  from assms(1) obtain rest x rest' mid' where
    f1: "find_sub start_marker content = Some (pre, rest)" and r: "rest = x # rest'"
    and f2: "find_sub stop_marker rest' = Some (mid', post)" and m: "mid = x # mid'"
    unfolding re_match_def by (auto split: option.splits list.splits)
  from assms(2) have c: "content = a @ start_marker @ (m @ stop_marker @ b)" by simp
  from find_sub_first [OF f1 c] have le: "length pre \<le> length a" .
  have "length mid \<le> length m" if eq: "length pre = length a"
  proof -
    from find_sub_Some [OF f1] c eq have "rest = m @ stop_marker @ b" by simp
    with r assms(3) obtain m' where m': "m = x # m'" "rest' = m' @ stop_marker @ b"
      by (cases m) auto
    from find_sub_first [OF f2 m'(2)] m m'(1) show ?thesis by simp
  qed
  with le show ?thesis by blast
qed

lemma get_substitution_plain:
  "CHR ''$'' \<notin> set r \<Longrightarrow> get_substitution m pre post r = r"
  by (induction m pre post r rule: get_substitution.induct) auto

lemma newtoc_plain: "CHR ''$'' \<notin> set t \<Longrightarrow> CHR ''$'' \<notin> set (newtoc t)"
  by (simp add: newtoc_def start_marker_def stop_marker_def)

lemma replace_first_absent: "\<not> contains pat s \<Longrightarrow> replace_first pat repl s = s"
  by (auto simp: replace_first_def contains_def split: option.splits)

lemma toc_str_succeeds:
  assumes "list_all (depth_in 1 (max_indent_depth c)) (lexer c str)"
  shows "\<exists>t. toc_str c opts str = Inr t"
proof -
  have "list_all (depth_in 1 (max_indent_depth c)) (shift_first opts (lexer c str))"
    using assms by (rule list_all_shift)
  from generate_tokens_succeeds [OF this, of opts] obtain r where
    "generate_tokens c opts (shift_first opts (lexer c str)) = Inr r" by blast
  then show ?thesis
    unfolding toc_str_def generate_def by simp
qed

lemma get_substitution_newtoc:
  "\<exists>r. get_substitution m pre post (newtoc t) = CHR 0x0A # CHR 0x0A # r"
  by (simp add: newtoc_def start_marker_def)

subsection \<open>Evaluating at concrete documents\<close>

lemmas insert_eval =
  toc_insert_def remove_toc_def re_match_def start_marker_def stop_marker_def
  toc_str_def generate_def generate_tokens_def filter_tokens_def shift_first_def
  default_options_def any_h1_def Let_def strip_if_def union_js_def omissions_def
  opts_slugify_def exceeds_maxDepth_def build_data_def array_join_spaces_def
  pick_bullet_def bullet_or_default_def render_line_def default_line_def
  replace_first_def newtoc_def contains_def

lemmas plain_eval =
  plain_def fence_matter_def fence_stringify_def line_lexer_def line_token_def
  exact_match_def ascii_slug_def lower_char_def
subsection \<open>The claims\<close>

text \<open>
  C1, as the code has it. With the default options, \<^verbatim>\<open>toc.raw\<close> on the example
  document builds three records, from the headings A, B and C at the rebased depths 1, 2
  and 1 (no token of depth 1 remains once the title is removed), and renders the three
  lines of the example, on an engine whose strings may have two characters. In a record
  the key \<^verbatim>\<open>depth\<close> holds the indentation string of
  the rebased depth, no space for depth 1 and two spaces for depth 2, not the number.
\<close>

theorem example_raw_records:
  assumes "behaves_on_example c" and "2 \<le> max_string_length c"
  shows "filter_tokens c default_options (shift_first default_options (lexer c example_doc)) =
           [\<lparr>tok_depth = 1, tok_text = ''A'', tok_heading = ''A'', tok_id = ''a''\<rparr>,
            \<lparr>tok_depth = 2, tok_text = ''B'', tok_heading = ''B'', tok_id = ''b''\<rparr>,
            \<lparr>tok_depth = 1, tok_text = ''C'', tok_heading = ''C'', tok_id = ''c''\<rparr>] \<and>
         toc_raw c default_options example_doc =
           Inr \<lparr>data =
                 [\<lparr>extra = [], depth = [], bullet = ''* '', heading = ''A'', url = ''a''\<rparr>,
                  \<lparr>extra = [], depth = ''  '', bullet = ''* '', heading = ''B'', url = ''b''\<rparr>,
                  \<lparr>extra = [], depth = [], bullet = ''* '', heading = ''C'', url = ''c''\<rparr>],
                toc = ''* [A](#a)\<newline>  * [B](#b)\<newline>* [C](#c)\<newline>''\<rparr>"
proof -
  have "default_options = default_options\<lparr>maxDepth := 3\<rparr>"
    by (simp add: default_options_def)
  from example_filtered [OF assms(1) this] example_generate_3 [OF assms]
  show ?thesis unfolding toc_raw_def by simp
qed

theorem example_raw_records_witness:
  "behaves_on_example plain \<and> 2 \<le> max_string_length plain \<and>
   map (\<lambda>h. (tok_heading h, tok_depth h))
     (filter_tokens plain default_options (shift_first default_options (lexer plain example_doc))) =
     [(''A'', 1), (''B'', 2), (''C'', 1)] \<and>
   toc_raw plain default_options example_doc =
     Inr \<lparr>data =
           [\<lparr>extra = [], depth = [], bullet = ''* '', heading = ''A'', url = ''a''\<rparr>,
            \<lparr>extra = [], depth = ''  '', bullet = ''* '', heading = ''B'', url = ''b''\<rparr>,
            \<lparr>extra = [], depth = [], bullet = ''* '', heading = ''C'', url = ''c''\<rparr>],
          toc = ''* [A](#a)\<newline>  * [B](#b)\<newline>* [C](#c)\<newline>''\<rparr>"
  using plain_behaves plain_string_limit
    example_raw_records [OF plain_behaves plain_string_limit] by simp

text \<open>
  The claim C1 as stated fails: the records that \<^verbatim>\<open>toc.raw\<close> returns for the example
  document have the strings of no, two and no spaces under the key \<^verbatim>\<open>depth\<close>, not
  the numbers 1, 2 and 1.
\<close>

theorem raw_record_depth_is_indent:
  "toc_raw plain default_options example_doc =
     Inr \<lparr>data =
           [\<lparr>extra = [], depth = [], bullet = ''* '', heading = ''A'', url = ''a''\<rparr>,
            \<lparr>extra = [], depth = ''  '', bullet = ''* '', heading = ''B'', url = ''b''\<rparr>,
            \<lparr>extra = [], depth = [], bullet = ''* '', heading = ''C'', url = ''c''\<rparr>],
          toc = ''* [A](#a)\<newline>  * [B](#b)\<newline>* [C](#c)\<newline>''\<rparr> \<and>
   depth \<lparr>extra = [], depth = [], bullet = ''* '', heading = ''A'', url = ''a''\<rparr> \<noteq> ''1''"
  unfolding toc_raw_def by (simp add: example_generate_3 [OF plain_behaves plain_string_limit])

text \<open>
  C2. The flag \<^verbatim>\<open>h1\<close> is computed once from the tokens that remain after the first
  token was removed, and the callback applies it to every heading before the omission
  test and before the \<^verbatim>\<open>maxDepth\<close> test: when no remaining token has depth 1, the
  rebased depths of the headings that pass the filter are their original depths minus 1,
  in document order; when some remaining token has depth 1, they are the original depths.
\<close>

theorem rebasing_is_uniform:
  "(\<not> any_h1 tokens \<longrightarrow>
      map tok_depth (filter_tokens c opts tokens) =
      map (\<lambda>t. original_depth t - 1) (filter (surviving c opts) tokens)) \<and>
   (any_h1 tokens \<longrightarrow>
      map tok_depth (filter_tokens c opts tokens) =
      map original_depth (filter (surviving c opts) tokens))"
  unfolding filter_tokens_def by (simp add: map_filter_depths)

theorem rebasing_is_uniform_witness:
  "\<not> any_h1 [Heading 2 ''A'', Other ''paragraph'', Heading 3 ''B''] \<and>
   map tok_depth (filter_tokens plain default_options
     [Heading 2 ''A'', Other ''paragraph'', Heading 3 ''B'']) = [1, 2] \<and>
   any_h1 [Heading 2 ''A'', Heading 1 ''X'', Heading 3 ''B''] \<and>
   map tok_depth (filter_tokens plain default_options
     [Heading 2 ''A'', Heading 1 ''X'', Heading 3 ''B'']) = [2, 1, 3]"
proof -
  have surv: "surviving plain default_options (Heading d [x])" for d x
    by (simp add: plain_def default_options_def strip_if_def union_js_def omissions_def
        exact_match_def)
  have a: "\<not> any_h1 [Heading 2 ''A'', Other ''paragraph'', Heading 3 ''B'']"
    by (simp add: any_h1_def)
  have b: "any_h1 [Heading 2 ''A'', Heading 1 ''X'', Heading 3 ''B'']"
    by (simp add: any_h1_def)
  from a rebasing_is_uniform [of "[Heading 2 ''A'', Other ''paragraph'', Heading 3 ''B'']"
      plain default_options]
  have "map tok_depth (filter_tokens plain default_options
      [Heading 2 ''A'', Other ''paragraph'', Heading 3 ''B'']) = [1, 2]"
    by (simp add: surv del: surviving.simps(2))
  moreover from b rebasing_is_uniform [of "[Heading 2 ''A'', Heading 1 ''X'', Heading 3 ''B'']"
      plain default_options]
  have "map tok_depth (filter_tokens plain default_options
      [Heading 2 ''A'', Heading 1 ''X'', Heading 3 ''B'']) = [2, 1, 3]"
    by (simp add: surv del: surviving.simps(2))
  ultimately show ?thesis using a b by blast
qed

text \<open>
  C3 fails on the code. For a document with a start marker and no front matter, whatever
  the tokenizer, the slug function and the options are: the first \<^verbatim>\<open>insert\<close> writes
  the block \<^verbatim>\<open>newtoc\<close> in the place of the marker; the second removes the region
  between the markers but not the two line breaks written before the start marker nor
  the one written after the stop marker, and writes them again, so its output is not the
  first output. The front-matter codec is assumed to return these documents, which have
  no front matter, as they are.
\<close>

theorem second_insert_differs:
  assumes "matter c ''# Title\<newline>\<newline><!-- toc -->\<newline>\<newline>## A\<newline>'' =
             (fd, ''# Title\<newline>\<newline><!-- toc -->\<newline>\<newline>## A\<newline>'')"
    and "\<And>x. matter_stringify c x fd = x"
    and "toc_str c opts ''# Title\<newline>\<newline><!-- toc -->\<newline>\<newline>## A\<newline>'' = Inr t"
    and "CHR ''$'' \<notin> set t"
    and "matter c (''# Title\<newline>\<newline>'' @ newtoc t @ ''\<newline>\<newline>## A\<newline>'') =
             (fd, ''# Title\<newline>\<newline>'' @ newtoc t @ ''\<newline>\<newline>## A\<newline>'')"
  shows "toc_insert c opts ''# Title\<newline>\<newline><!-- toc -->\<newline>\<newline>## A\<newline>'' =
           Inr (''# Title\<newline>\<newline>'' @ newtoc t @ ''\<newline>\<newline>## A\<newline>'') \<and>
         toc_insert c opts (''# Title\<newline>\<newline>'' @ newtoc t @ ''\<newline>\<newline>## A\<newline>'') \<noteq>
           Inr (''# Title\<newline>\<newline>'' @ newtoc t @ ''\<newline>\<newline>## A\<newline>'')"
proof -
  let ?D = "''# Title\<newline>\<newline><!-- toc -->\<newline>\<newline>## A\<newline>''"
  let ?P = "''# Title\<newline>\<newline>''"
  let ?S = "''\<newline>\<newline>## A\<newline>''"
  let ?out = "?P @ newtoc t @ ?S"
  have fD: "find_sub start_marker ?D = Some (?P, ?S)"
    by (simp add: start_marker_def)
  have "re_match ?D = None"
    by (simp add: re_match_def start_marker_def stop_marker_def)
  then have rD: "remove_toc ?D = ?D" by (simp add: remove_toc_def)
  have sub: "get_substitution start_marker ?P ?S (newtoc t) = newtoc t"
    by (rule get_substitution_plain [OF newtoc_plain [OF assms(4)]])
  have first: "toc_insert c opts ?D = Inr ?out"
    unfolding toc_insert_def
    by (simp only: assms(1) prod.case rD Let_def assms(3) sum.case assms(2)
        replace_first_def fD option.case sub)
  let ?tail = "''\<newline>'' @ t @ ''\<newline>'' @ stop_marker @ ''\<newline>'' @ ?S"
  have fo: "find_sub start_marker ?out = Some (?P @ ''\<newline>\<newline>'', CHR 0x0A # ?tail)"
    by (simp add: newtoc_def start_marker_def)
  have "?tail = (''\<newline>'' @ t @ ''\<newline>'') @ stop_marker @ (''\<newline>'' @ ?S)" by simp
  from find_sub_exists [OF this] obtain mid post where
    fs: "find_sub stop_marker ?tail = Some (mid, post)" by blast
  have ro: "remove_toc ?out = (?P @ ''\<newline>\<newline>'') @ start_marker @ post"
    unfolding remove_toc_def re_match_def by (simp only: fo fs option.case prod.case list.case)
  let ?c2 = "(?P @ ''\<newline>\<newline>'') @ start_marker @ post"
  have f2: "find_sub start_marker ?c2 = Some (?P @ ''\<newline>\<newline>'', post)"
    by (simp add: start_marker_def)
  have second: "toc_insert c opts ?out \<noteq> Inr ?out"
  proof (cases "toc_str c opts ?c2")
    case (Inl e)
    then have "toc_insert c opts ?out = Inl e"
      unfolding toc_insert_def by (simp only: assms(5) prod.case ro Let_def sum.case)
    then show ?thesis by simp
  next
    case (Inr t2)
    obtain r where r: "get_substitution start_marker (?P @ ''\<newline>\<newline>'') post (newtoc t2) =
        CHR 0x0A # CHR 0x0A # r"
      using get_substitution_newtoc by blast
    from Inr have "toc_insert c opts ?out =
        Inr ((?P @ ''\<newline>\<newline>'') @ (CHR 0x0A # CHR 0x0A # r) @ post)"
      unfolding toc_insert_def
      by (simp only: assms(5) prod.case ro Let_def sum.case assms(2) replace_first_def f2
          option.case r)
    then show ?thesis by (simp add: newtoc_def start_marker_def)
  qed
  from first second show ?thesis by blast
qed

theorem second_insert_differs_witness:
  "matter plain ''# Title\<newline>\<newline><!-- toc -->\<newline>\<newline>## A\<newline>'' =
     (None, ''# Title\<newline>\<newline><!-- toc -->\<newline>\<newline>## A\<newline>'') \<and>
   (\<forall>x. matter_stringify plain x None = x) \<and>
   toc_str plain default_options ''# Title\<newline>\<newline><!-- toc -->\<newline>\<newline>## A\<newline>'' =
     Inr ''* [A](#a)\<newline>'' \<and>
   CHR ''$'' \<notin> set ''* [A](#a)\<newline>'' \<and>
   toc_insert plain default_options ''# Title\<newline>\<newline><!-- toc -->\<newline>\<newline>## A\<newline>'' =
     Inr ''# Title\<newline>\<newline>\<newline>\<newline><!-- toc -->\<newline>\<newline>* [A](#a)\<newline>\<newline><!-- tocstop -->\<newline>\<newline>\<newline>## A\<newline>'' \<and>
   toc_insert plain default_options
       ''# Title\<newline>\<newline>\<newline>\<newline><!-- toc -->\<newline>\<newline>* [A](#a)\<newline>\<newline><!-- tocstop -->\<newline>\<newline>\<newline>## A\<newline>'' \<noteq>
     Inr ''# Title\<newline>\<newline>\<newline>\<newline><!-- toc -->\<newline>\<newline>* [A](#a)\<newline>\<newline><!-- tocstop -->\<newline>\<newline>\<newline>## A\<newline>'' \<and>
   toc_insert plain default_options
       ''# Title\<newline>\<newline>\<newline>\<newline><!-- toc -->\<newline>\<newline>* [A](#a)\<newline>\<newline><!-- tocstop -->\<newline>\<newline>\<newline>## A\<newline>'' =
     Inr ''# Title\<newline>\<newline>\<newline>\<newline>\<newline>\<newline><!-- toc -->\<newline>\<newline>* [A](#a)\<newline>\<newline><!-- tocstop -->\<newline>\<newline>\<newline>\<newline>## A\<newline>''"
proof -
  let ?D = "''# Title\<newline>\<newline><!-- toc -->\<newline>\<newline>## A\<newline>''"
  let ?t = "''* [A](#a)\<newline>''"
  have out: "''# Title\<newline>\<newline>'' @ newtoc ?t @ ''\<newline>\<newline>## A\<newline>'' =
      ''# Title\<newline>\<newline>\<newline>\<newline><!-- toc -->\<newline>\<newline>* [A](#a)\<newline>\<newline><!-- tocstop -->\<newline>\<newline>\<newline>## A\<newline>''"
    by (simp add: newtoc_def start_marker_def stop_marker_def)
  have m: "matter plain ?D = (None, ?D)"
    by (simp add: plain_def fence_matter_def)
  have s: "matter_stringify plain x None = x" for x
    by (simp add: plain_def fence_stringify_def)
  have t: "toc_str plain default_options ?D = Inr ?t"
    by (simp add: insert_eval plain_eval)
  have d: "CHR ''$'' \<notin> set ?t" by simp
  have m': "matter plain (''# Title\<newline>\<newline>'' @ newtoc ?t @ ''\<newline>\<newline>## A\<newline>'') =
      (None, ''# Title\<newline>\<newline>'' @ newtoc ?t @ ''\<newline>\<newline>## A\<newline>'')"
    unfolding out by (simp add: plain_def fence_matter_def)
  have two: "toc_insert plain default_options
       ''# Title\<newline>\<newline>\<newline>\<newline><!-- toc -->\<newline>\<newline>* [A](#a)\<newline>\<newline><!-- tocstop -->\<newline>\<newline>\<newline>## A\<newline>'' =
     Inr ''# Title\<newline>\<newline>\<newline>\<newline>\<newline>\<newline><!-- toc -->\<newline>\<newline>* [A](#a)\<newline>\<newline><!-- tocstop -->\<newline>\<newline>\<newline>\<newline>## A\<newline>''"
    by (simp add: insert_eval plain_eval)
  from second_insert_differs [OF m s t d m', unfolded out] m s t d two
  show ?thesis by blast
qed

text \<open>
  C4. Provided \<^verbatim>\<open>utils.isMatch\<close> matches every string against a set that holds it, no
  record of the result has a heading text that is an entry of \<^verbatim>\<open>options.omit\<close> or one
  of the three built-in omissions, whatever the depth of the heading; and the rendered
  string consists of the lines of these records only.
\<close>

theorem omitted_heading_never_listed:
  assumes "matches_own_entries (utils_isMatch c)" and "generate c opts str = Inr r"
  shows "list_all (\<lambda>e. heading e \<notin> set (omit opts) \<union> set omissions) (data r) \<and>
         toc r = strip_if c opts (concat (map (render_line c opts) (data r)))"
proof -
  let ?tokens = "shift_first opts (lexer c str)"
  from assms(2) have g: "generate_tokens c opts ?tokens = Inr r"
    unfolding generate_def .
  have "heading e \<notin> set (omit opts) \<union> set omissions" if e: "e \<in> set (data r)" for e
  proof -
    from data_from_htoken [OF g e] obtain h where h: "h \<in> set (filter_tokens c opts ?tokens)"
      and b: "build_data c opts h = Inr e" by blast
    from h obtain t where f: "filter_token c opts (any_h1 ?tokens) t = Some h"
      unfolding filter_tokens_def set_map_filter by blast
    from filter_token_fields [OF f]
    have nm: "\<not> utils_isMatch c (union_js [[], omit opts, omissions]) (tok_heading h)" by blast
    have "tok_heading h \<notin> set (union_js [[], omit opts, omissions])"
      using assms(1) nm unfolding matches_own_entries_def by blast
    then show ?thesis using build_data_fields [OF b] by (simp add: set_union_js)
  qed
  then show ?thesis using generate_tokens_result [OF g] by (simp add: list_all_iff)
qed

theorem omitted_heading_never_listed_witness:
  "matches_own_entries (utils_isMatch plain) \<and>
   generate plain (default_options\<lparr>omit := [''A'']\<rparr>)
     ''# Title\<newline>\<newline>## A\<newline>\<newline>## TOC\<newline>\<newline>## C\<newline>'' =
     Inr \<lparr>data = [\<lparr>extra = [], depth = [], bullet = ''* '', heading = ''C'', url = ''c''\<rparr>],
          toc = ''* [C](#c)\<newline>''\<rparr> \<and>
   list_all (\<lambda>e. heading e \<notin> set [''A''] \<union> set omissions)
     [\<lparr>extra = [], depth = [], bullet = ''* '', heading = ''C'', url = ''c''\<rparr>]"
proof -
  have a: "matches_own_entries (utils_isMatch plain)"
    by (simp add: matches_own_entries_def plain_def exact_match_def)
  have lx: "lexer plain ''# Title\<newline>\<newline>## A\<newline>\<newline>## TOC\<newline>\<newline>## C\<newline>'' =
      [Heading 1 ''Title'', Heading 2 ''A'', Heading 2 ''TOC'', Heading 2 ''C'']"
    by (simp add: plain_def line_lexer_def line_token_def)
  have b: "generate plain (default_options\<lparr>omit := [''A'']\<rparr>)
     ''# Title\<newline>\<newline>## A\<newline>\<newline>## TOC\<newline>\<newline>## C\<newline>'' =
     Inr \<lparr>data = [\<lparr>extra = [], depth = [], bullet = ''* '', heading = ''C'', url = ''c''\<rparr>],
          toc = ''* [C](#c)\<newline>''\<rparr>"
    unfolding generate_def lx
    by (simp add: generate_tokens_def filter_tokens_def shift_first_def default_options_def
        any_h1_def Let_def strip_if_def union_js_def omissions_def opts_slugify_def
        exceeds_maxDepth_def build_data_def array_join_spaces_def pick_bullet_def
        bullet_or_default_def render_line_def default_line_def)
      (simp add: plain_def exact_match_def ascii_slug_def lower_char_def)
  from omitted_heading_never_listed [OF a b] a b show ?thesis by simp
qed

text \<open>
  C5. The test \<^verbatim>\<open>h.depth > opts.maxDepth\<close> reads the rebased depth: the records of a
  result are the records built for the filtered headings that the test does not skip,
  in order; the test skips a heading exactly when its rebased depth exceeds
  \<^verbatim>\<open>maxDepth\<close>, so with \<^verbatim>\<open>maxDepth\<close> at least 1 (the invariant of the options) a
  heading of rebased depth 0 or less is never skipped by it. On the example document
  with \<^verbatim>\<open>maxDepth = 1\<close>, B is dropped and the lines of A and C are produced.
\<close>

theorem maxDepth_reads_rebased_depth:
  "(generate_tokens c opts tokens = Inr r \<longrightarrow>
      map Inr (data r) =
        map (build_data c opts)
          (filter (\<lambda>h. \<not> exceeds_maxDepth opts h) (filter_tokens c opts tokens))) \<and>
   (exceeds_maxDepth opts h \<longleftrightarrow> maxDepth opts < tok_depth h) \<and>
   (1 \<le> maxDepth opts \<and> tok_depth h \<le> 0 \<longrightarrow> \<not> exceeds_maxDepth opts h) \<and>
   (behaves_on_example c \<longrightarrow>
      toc_raw c (default_options\<lparr>maxDepth := 1\<rparr>) example_doc =
        Inr \<lparr>data =
              [\<lparr>extra = [], depth = [], bullet = ''* '', heading = ''A'', url = ''a''\<rparr>,
               \<lparr>extra = [], depth = [], bullet = ''* '', heading = ''C'', url = ''c''\<rparr>],
             toc = ''* [A](#a)\<newline>* [C](#c)\<newline>''\<rparr>)"
proof -
  have "generate_tokens c opts tokens = Inr r \<longrightarrow>
      map Inr (data r) =
        map (build_data c opts)
          (filter (\<lambda>h. \<not> exceeds_maxDepth opts h) (filter_tokens c opts tokens))"
    using generate_tokens_result by blast
  moreover have "exceeds_maxDepth opts h \<longleftrightarrow> maxDepth opts < tok_depth h"
    by (simp add: exceeds_maxDepth_def)
  moreover have "1 \<le> maxDepth opts \<and> tok_depth h \<le> 0 \<longrightarrow> \<not> exceeds_maxDepth opts h"
    by (simp add: exceeds_maxDepth_def)
  moreover have "behaves_on_example c \<longrightarrow>
      toc_raw c (default_options\<lparr>maxDepth := 1\<rparr>) example_doc =
        Inr \<lparr>data =
              [\<lparr>extra = [], depth = [], bullet = ''* '', heading = ''A'', url = ''a''\<rparr>,
               \<lparr>extra = [], depth = [], bullet = ''* '', heading = ''C'', url = ''c''\<rparr>],
             toc = ''* [A](#a)\<newline>* [C](#c)\<newline>''\<rparr>"
    unfolding toc_raw_def using example_generate_1 by blast
  ultimately show ?thesis by blast
qed

theorem maxDepth_reads_rebased_depth_witness:
  "behaves_on_example plain \<and>
   toc_raw plain (default_options\<lparr>maxDepth := 1\<rparr>) example_doc =
     Inr \<lparr>data =
           [\<lparr>extra = [], depth = [], bullet = ''* '', heading = ''A'', url = ''a''\<rparr>,
            \<lparr>extra = [], depth = [], bullet = ''* '', heading = ''C'', url = ''c''\<rparr>],
          toc = ''* [A](#a)\<newline>* [C](#c)\<newline>''\<rparr> \<and>
   map Inr
     [\<lparr>extra = [], depth = [], bullet = ''* '', heading = ''A'', url = ''a''\<rparr>,
      \<lparr>extra = [], depth = [], bullet = ''* '', heading = ''C'', url = ''c''\<rparr>] =
   map (build_data plain (default_options\<lparr>maxDepth := 1\<rparr>))
     (filter (\<lambda>h. \<not> exceeds_maxDepth (default_options\<lparr>maxDepth := 1\<rparr>) h)
       (filter_tokens plain (default_options\<lparr>maxDepth := 1\<rparr>)
         [Heading 2 ''A'', Heading 3 ''B'', Heading 2 ''C''])) \<and>
   1 \<le> maxDepth (default_options\<lparr>maxDepth := 1\<rparr>) \<and>
   \<not> exceeds_maxDepth (default_options\<lparr>maxDepth := 1\<rparr>)
       \<lparr>tok_depth = 0, tok_text = ''A'', tok_heading = ''A'', tok_id = ''a''\<rparr> \<and>
   exceeds_maxDepth (default_options\<lparr>maxDepth := 1\<rparr>)
       \<lparr>tok_depth = 2, tok_text = ''B'', tok_heading = ''B'', tok_id = ''b''\<rparr>"
proof -
  let ?o = "default_options\<lparr>maxDepth := 1\<rparr>"
  let ?r = "\<lparr>data =
           [\<lparr>extra = [], depth = [], bullet = ''* '', heading = ''A'', url = ''a''\<rparr>,
            \<lparr>extra = [], depth = [], bullet = ''* '', heading = ''C'', url = ''c''\<rparr>],
          toc = ''* [A](#a)\<newline>* [C](#c)\<newline>''\<rparr>"
  let ?ts = "[Heading 2 ''A'', Heading 3 ''B'', Heading 2 ''C'']"
  have g: "toc_raw plain ?o example_doc = Inr ?r"
    using maxDepth_reads_rebased_depth [of plain] plain_behaves by blast
  have sh: "shift_first ?o (lexer plain example_doc) = ?ts"
    by (simp add: plain_lexer_example example_tokens_def shift_first_def default_options_def)
  from g have "generate_tokens plain ?o ?ts = Inr ?r"
    unfolding toc_raw_def generate_def sh .
  with maxDepth_reads_rebased_depth [of plain ?o ?ts ?r]
  have d: "map Inr (data ?r) = map (build_data plain ?o)
      (filter (\<lambda>h. \<not> exceeds_maxDepth ?o h) (filter_tokens plain ?o ?ts))"
    by blast
  have m: "1 \<le> maxDepth ?o" by (simp add: default_options_def)
  have z: "\<not> exceeds_maxDepth ?o \<lparr>tok_depth = 0, tok_text = ''A'', tok_heading = ''A'', tok_id = ''a''\<rparr>"
    using maxDepth_reads_rebased_depth
      [of plain ?o ?ts ?r "\<lparr>tok_depth = 0, tok_text = ''A'', tok_heading = ''A'', tok_id = ''a''\<rparr>"] m
    by simp
  have x: "exceeds_maxDepth ?o \<lparr>tok_depth = 2, tok_text = ''B'', tok_heading = ''B'', tok_id = ''b''\<rparr>"
    using maxDepth_reads_rebased_depth
      [of plain ?o ?ts ?r "\<lparr>tok_depth = 2, tok_text = ''B'', tok_heading = ''B'', tok_id = ''b''\<rparr>"]
    by (simp add: default_options_def)
  from plain_behaves g d m z x show ?thesis by simp
qed



text \<open>
  C7 fails on the code. \<^verbatim>\<open>insert\<close> takes the front matter off, removes the old region
  in the content only and puts the front matter back, but makes the final replacement in
  the re-serialized document. For a document whose content holds no start marker while
  its front matter holds the marker text, the result is not the document unchanged: the
  table is inserted into the front matter. With the marker text in both places the block
  is written into the front matter as well, and the start marker of the content is left
  as it was.
\<close>

theorem marker_in_front_matter:
  "matter plain ''---\<newline>title: <!-- toc -->\<newline>---\<newline># Title\<newline>\<newline>## A\<newline>'' =
     (Some ''\<newline>title: <!-- toc -->'', ''# Title\<newline>\<newline>## A\<newline>'') \<and>
   \<not> contains start_marker ''# Title\<newline>\<newline>## A\<newline>'' \<and>
   matter_stringify plain ''# Title\<newline>\<newline>## A\<newline>'' (Some ''\<newline>title: <!-- toc -->'') =
     ''---\<newline>title: <!-- toc -->\<newline>---\<newline># Title\<newline>\<newline>## A\<newline>'' \<and>
   toc_insert plain default_options
       ''---\<newline>title: <!-- toc -->\<newline>---\<newline># Title\<newline>\<newline>## A\<newline>'' =
     Inr ''---\<newline>title: \<newline>\<newline><!-- toc -->\<newline>\<newline>* [A](#a)\<newline>\<newline><!-- tocstop -->\<newline>\<newline>---\<newline># Title\<newline>\<newline>## A\<newline>'' \<and>
   toc_insert plain default_options
       ''---\<newline>title: <!-- toc -->\<newline>---\<newline># Title\<newline>\<newline><!-- toc -->\<newline>\<newline>## A\<newline>'' =
     Inr ''---\<newline>title: \<newline>\<newline><!-- toc -->\<newline>\<newline>* [A](#a)\<newline>\<newline><!-- tocstop -->\<newline>\<newline>---\<newline># Title\<newline>\<newline><!-- toc -->\<newline>\<newline>## A\<newline>''"
  by (simp add: insert_eval plain_eval)

text \<open>
  C8, as the code has it. An empty \<^verbatim>\<open>options.bullet\<close> array raises no error: the index
  is \<^verbatim>\<open>NaN\<close>, the read gives \<^verbatim>\<open>undefined\<close>, and every record gets the default bullet
  \<^verbatim>\<open>'* '\<close>. For a document whose heading depths are valid, generation returns a result
  and all its bullets are the default one.
\<close>

theorem empty_bullet_array_defaults:
  assumes "bullet_option opts = BulletArray []"
    and "list_all (depth_in 1 (max_indent_depth c)) (lexer c str)"
  shows "\<exists>r. generate c opts str = Inr r \<and> list_all (\<lambda>e. bullet e = ''* '') (data r)"
proof -
  let ?tokens = "shift_first opts (lexer c str)"
  have "list_all (depth_in 1 (max_indent_depth c)) ?tokens"
    using assms(2) by (rule list_all_shift)
  from generate_tokens_succeeds [OF this, of opts] obtain r where r: "generate_tokens c opts ?tokens = Inr r"
    by blast
  have "bullet e = ''* ''" if e: "e \<in> set (data r)" for e
  proof -
    from data_from_htoken [OF r e] obtain h where "build_data c opts h = Inr e" by blast
    from build_data_fields [OF this] show ?thesis
      by (simp add: pick_bullet_def assms(1) bullet_or_default_def)
  qed
  with r show ?thesis unfolding generate_def by (auto simp: list_all_iff)
qed

theorem empty_bullet_array_defaults_witness:
  "bullet_option (default_options\<lparr>bullet_option := BulletArray []\<rparr>) = BulletArray [] \<and>
   list_all (depth_in 1 (max_indent_depth plain)) (lexer plain example_doc) \<and>
   (\<exists>r. generate plain (default_options\<lparr>bullet_option := BulletArray []\<rparr>) example_doc = Inr r \<and>
        list_all (\<lambda>e. bullet e = ''* '') (data r))"
proof -
  have a: "bullet_option (default_options\<lparr>bullet_option := BulletArray []\<rparr>) = BulletArray []"
    by simp
  have b: "list_all (depth_in 1 (max_indent_depth plain)) (lexer plain example_doc)"
    by (simp add: plain_lexer_example example_tokens_def plain_max_indent)
  from empty_bullet_array_defaults [OF a b] a b show ?thesis by blast
qed

text \<open>
  The claim C8 as stated fails on the example document: with an empty bullet array the
  generation returns its result, no error is raised.
\<close>

theorem empty_bullet_array_no_error:
  "toc_raw plain (default_options\<lparr>bullet_option := BulletArray []\<rparr>) example_doc =
     Inr \<lparr>data =
           [\<lparr>extra = [], depth = [], bullet = ''* '', heading = ''A'', url = ''a''\<rparr>,
            \<lparr>extra = [], depth = ''  '', bullet = ''* '', heading = ''B'', url = ''b''\<rparr>,
            \<lparr>extra = [], depth = [], bullet = ''* '', heading = ''C'', url = ''c''\<rparr>],
          toc = ''* [A](#a)\<newline>  * [B](#b)\<newline>* [C](#c)\<newline>''\<rparr>"
  unfolding toc_raw_def generate_def plain_lexer_example
  by (simp add: generate_tokens_def filter_tokens_def shift_first_def default_options_def
        example_tokens_def any_h1_def Let_def strip_if_def union_js_def omissions_def
        opts_slugify_def exceeds_maxDepth_def build_data_def array_join_spaces_def
        pick_bullet_def bullet_or_default_def render_line_def default_line_def)
     (simp add: plain_def exact_match_def ascii_slug_def lower_char_def spaces_2)

text \<open>
  C9. When \<^verbatim>\<open>firsth1\<close> is false the first token is removed whatever it is: the result
  is the one computed from the tokens after it, and every record of \<^verbatim>\<open>data\<close> comes from
  a heading among these later tokens, none from the first token.
\<close>

theorem first_token_dropped:
  assumes "firsth1 opts = False" and "lexer c str = t # ts"
  shows "toc_raw c opts str = generate_tokens c opts ts \<and>
         (\<forall>r. toc_raw c opts str = Inr r \<longrightarrow>
            list_all (\<lambda>e. list_ex (from_token c opts e) ts) (data r))"
proof -
  have eq: "toc_raw c opts str = generate_tokens c opts ts"
    unfolding toc_raw_def generate_def shift_first_def using assms by simp
  have "list_ex (from_token c opts e) ts"
    if r: "generate_tokens c opts ts = Inr r" and e: "e \<in> set (data r)" for r e
  proof -
    from data_from_htoken [OF r e] obtain h where h: "h \<in> set (filter_tokens c opts ts)"
      and b: "build_data c opts h = Inr e" by blast
    from h obtain t' where t': "t' \<in> set ts" and f: "filter_token c opts (any_h1 ts) t' = Some h"
      unfolding filter_tokens_def set_map_filter by blast
    from filter_token_fields [OF f] build_data_fields [OF b]
    have "from_token c opts e t'" by auto
    with t' show ?thesis by (auto simp: list_ex_iff)
  qed
  with eq show ?thesis by (simp add: list_all_iff)
qed

theorem first_token_dropped_witness:
  "firsth1 default_options = False \<and>
   lexer plain example_doc =
     Heading 1 ''Title'' # [Heading 2 ''A'', Heading 3 ''B'', Heading 2 ''C''] \<and>
   toc_raw plain default_options example_doc =
     generate_tokens plain default_options [Heading 2 ''A'', Heading 3 ''B'', Heading 2 ''C''] \<and>
   (\<exists>r. toc_raw plain default_options example_doc = Inr r \<and>
     list_all (\<lambda>e. list_ex (from_token plain default_options e)
       [Heading 2 ''A'', Heading 3 ''B'', Heading 2 ''C'']) (data r))"
proof -
  have a: "firsth1 default_options = False" by (simp add: default_options_def)
  have b: "lexer plain example_doc =
      Heading 1 ''Title'' # [Heading 2 ''A'', Heading 3 ''B'', Heading 2 ''C'']"
    by (simp add: plain_lexer_example example_tokens_def)
  have "\<exists>r. toc_raw plain default_options example_doc = Inr r"
    using example_generate_3 [OF plain_behaves plain_string_limit] unfolding toc_raw_def by simp
  with first_token_dropped [OF a b] a b show ?thesis by blast
qed

text \<open>
  C10. When the lexer gives every heading a depth of at least 1, every heading that
  passes the filter has a rebased depth of at least 1, so the indentation length
  \<open>(depth - 1) * 2\<close> is never negative: the flag \<^verbatim>\<open>h1\<close> holds as soon as a remaining
  token has depth 1, and where it does not hold every remaining heading has depth 2 or
  more.
\<close>

theorem rebased_depth_positive:
  assumes "list_all (depth_at_least 1) (lexer c str)"
  shows "list_all (\<lambda>h. 1 \<le> tok_depth h \<and> 0 \<le> (tok_depth h - 1) * 2)
           (filter_tokens c opts (shift_first opts (lexer c str))) \<and>
         (list_ex has_depth1 (shift_first opts (lexer c str)) \<longrightarrow>
            any_h1 (shift_first opts (lexer c str))) \<and>
         (\<not> any_h1 (shift_first opts (lexer c str)) \<longrightarrow>
            list_all (depth_at_least 2) (shift_first opts (lexer c str)))"
proof -
  have sh: "list_all (depth_at_least 1) (shift_first opts (lexer c str))"
    using assms by (rule list_all_shift)
  have "1 \<le> tok_depth h \<and> 0 \<le> (tok_depth h - 1) * 2"
    if "h \<in> set (filter_tokens c opts (shift_first opts (lexer c str)))" for h
    using filter_tokens_lower [OF sh that] by simp
  then have "list_all (\<lambda>h. 1 \<le> tok_depth h \<and> 0 \<le> (tok_depth h - 1) * 2)
      (filter_tokens c opts (shift_first opts (lexer c str)))"
    by (simp add: list_all_iff)
  moreover have "list_ex has_depth1 (shift_first opts (lexer c str)) \<longrightarrow>
      any_h1 (shift_first opts (lexer c str))"
    by (simp add: any_h1_def)
  moreover have "\<not> any_h1 (shift_first opts (lexer c str)) \<longrightarrow>
      list_all (depth_at_least 2) (shift_first opts (lexer c str))"
    using no_h1_depths [OF sh] by blast
  ultimately show ?thesis by blast
qed

theorem rebased_depth_positive_witness:
  "list_all (depth_at_least 1) (lexer plain example_doc) \<and>
   list_all (\<lambda>h. 1 \<le> tok_depth h \<and> 0 \<le> (tok_depth h - 1) * 2)
     (filter_tokens plain default_options (shift_first default_options (lexer plain example_doc))) \<and>
   \<not> any_h1 (shift_first default_options (lexer plain example_doc)) \<and>
   list_all (depth_at_least 2) (shift_first default_options (lexer plain example_doc)) \<and>
   any_h1 (shift_first (default_options\<lparr>firsth1 := True\<rparr>) (lexer plain example_doc))"
proof -
  have a: "list_all (depth_at_least 1) (lexer plain example_doc)"
    by (simp add: plain_lexer_example example_tokens_def)
  have b: "\<not> any_h1 (shift_first default_options (lexer plain example_doc))"
    by (simp add: plain_lexer_example example_tokens_def shift_first_def default_options_def
        any_h1_def)
  have c: "list_ex has_depth1 (shift_first (default_options\<lparr>firsth1 := True\<rparr>)
      (lexer plain example_doc))"
    by (simp add: plain_lexer_example example_tokens_def shift_first_def default_options_def)
  from rebased_depth_positive [OF a, of default_options] b
    rebased_depth_positive [OF a, of "default_options\<lparr>firsth1 := True\<rparr>"] c a
  show ?thesis by blast
qed

end
